theory Spec2Isabelle
  imports Complex_Main
begin

section \<open>The exploration loop of \<open>scripts/self_explorer_figma.py\<close>\<close>

text \<open>
  The theory embeds \<open>run_exploration\<close>: the \<open>while\<close> loop over rounds, its local
  variables (\<open>round_count\<close>, \<open>doc_count\<close>, \<open>useless_list\<close>, \<open>last_act\<close>,
  \<open>task_complete\<close>), the documentation files under \<open>docs_dir\<close> and the result
  dictionary it returns.

  The collaborators imported from \<open>figma_controller\<close>, \<open>model\<close> and \<open>prompts\<close> are
  not part of the embedded code. What they return in a round is an input of that round
  (\<open>round_env\<close>); every call to them is assumed to return. Calls that matter to the
  properties below (model requests, driver gestures, \<open>back()\<close>, writing a documentation
  file) are recorded in the order they happen in the field \<open>calls\<close>. Prompt rendering,
  screenshots, report logging, \<open>time.sleep\<close>, the questions asked on the console before
  the loop and the removal of \<open>data.json\<close> after it have no influence on the control
  flow and are left out.

  Coordinates are exact rationals: Python's \<open>/\<close> is true division, and the rounding of
  IEEE doubles is not modelled.
\<close>

subsection \<open>Python values, exceptions and sequence operations\<close>

text \<open>The items of the lists returned by \<open>parse_explore_rsp\<close> and
  \<open>parse_reflect_rsp\<close>: strings and integers.\<close>

datatype pyval = PStr string | PInt int

text \<open>The exceptions the embedded code itself can raise, each with \<open>str(e)\<close>.\<close>

datatype py_error =
    IndexError string
  | ValueError string
  | TypeError string
  | KeyError string

fun str_of_error :: "py_error \<Rightarrow> string" where
  "str_of_error (IndexError m) = m"
| "str_of_error (ValueError m) = m"
| "str_of_error (TypeError m) = m"
| "str_of_error (KeyError m) = m"

text \<open>\<open>xs[i]\<close> on a list: an index from \<open>-len(xs)\<close> to \<open>-1\<close> counts from the end,
  anything outside \<open>-len(xs) .. len(xs) - 1\<close> raises.\<close>

definition py_getitem :: "'a list \<Rightarrow> int \<Rightarrow> py_error + 'a" where
  "py_getitem xs i =
     (if 0 \<le> i \<and> i < int (length xs) then Inr (xs ! nat i)
      else if i < 0 \<and> - int (length xs) \<le> i then Inr (xs ! nat (int (length xs) + i))
      else Inl (IndexError ''list index out of range''))"

text \<open>\<open>_, b = res\<close> and \<open>_, b, c = res\<close>: the sequence must have exactly that many
  items.\<close>

fun unpack2 :: "'a list \<Rightarrow> py_error + ('a \<times> 'a)" where
  "unpack2 [] = Inl (ValueError ''not enough values to unpack (expected 2, got 0)'')"
| "unpack2 [a] = Inl (ValueError ''not enough values to unpack (expected 2, got 1)'')"
| "unpack2 [a, b] = Inr (a, b)"
| "unpack2 (a # b # c # rest) = Inl (ValueError ''too many values to unpack (expected 2)'')"

fun unpack3 :: "'a list \<Rightarrow> py_error + ('a \<times> 'a \<times> 'a)" where
  "unpack3 [] = Inl (ValueError ''not enough values to unpack (expected 3, got 0)'')"
| "unpack3 [a] = Inl (ValueError ''not enough values to unpack (expected 3, got 1)'')"
| "unpack3 [a, b] = Inl (ValueError ''not enough values to unpack (expected 3, got 2)'')"
| "unpack3 [a, b, c] = Inr (a, b, c)"
| "unpack3 (a # b # c # d # rest) = Inl (ValueError ''too many values to unpack (expected 3)'')"

text \<open>A name between apostrophes, as \<open>repr\<close> prints a plain string.\<close>

definition quoted :: "string \<Rightarrow> string" where
  "quoted s = [CHR 0x27] @ s @ [CHR 0x27]"

text \<open>\<open>area - 1\<close>: defined on integers, a \<open>TypeError\<close> on a string.\<close>

fun py_sub1 :: "pyval \<Rightarrow> py_error + int" where
  "py_sub1 (PInt a) = Inr (a - 1)"
| "py_sub1 (PStr s) =
     Inl (TypeError (''unsupported operand type(s) for -: '' @ quoted ''str'' @ '' and '' @ quoted ''int''))"

text \<open>Truth value of an item, as in \<open>if doc_content[act_name]:\<close>.\<close>

fun truthy :: "pyval \<Rightarrow> bool" where
  "truthy (PStr s) = (s \<noteq> [])"
| "truthy (PInt i) = (i \<noteq> 0)"

text \<open>The reply \<open>rsp\<close> that \<open>get_model_response\<close> returns with a false status: a
  plain text or a mapping, whose values are replies again. \<open>rsp[k]\<close> with a string
  \<open>k\<close> raises \<open>TypeError\<close> on a text and \<open>KeyError\<close> on a mapping without the
  key.\<close>

datatype pyobj = Str string | Dict "(string \<times> pyobj) list"

definition str_index_error :: py_error where
  "str_index_error = TypeError (''string indices must be integers, not '' @ quoted ''str'')"

fun py_subscript :: "pyobj \<Rightarrow> string \<Rightarrow> py_error + pyobj" where
  "py_subscript (Str t) k = Inl str_index_error"
| "py_subscript (Dict kvs) k =
     (case map_of kvs k of
        None \<Rightarrow> Inl (KeyError (quoted k))
      | Some v \<Rightarrow> Inr v)"

subsection \<open>Data of a session\<close>

text \<open>\<open>UIElement\<close>: the identifier and the bounding box
  \<open>((x1, y1), (x2, y2))\<close>, top-left and bottom-right.\<close>

record UIElement =
  uid :: string
  bbox :: "(rat \<times> rat) \<times> (rat \<times> rat)"

text \<open>\<open>configs["MAX_ROUNDS"]\<close>, and the canvas offset \<open>init_data["x"]\<close>,
  \<open>init_data["y"]\<close> computed by \<open>init_exploration\<close>.\<close>

record configs =
  MAX_ROUNDS :: int

record init_data =
  init_x :: rat
  init_y :: rat

text \<open>Calls to the collaborators, as recorded in \<open>calls\<close>:
  \<open>mllm.get_model_response\<close> for the exploration and for the reflection prompt, the
  driver's \<open>tap\<close>, \<open>long_press\<close>, \<open>swipe\<close> and \<open>back\<close>, and the write of the
  documentation file of an element.\<close>

datatype call =
    Explore_model
  | Tap rat rat
  | Long_press rat rat
  | Swipe rat rat pyval pyval
  | Reflect_model
  | Back
  | Write_doc string

text \<open>The variables of the loop. \<open>docs\<close> is the content of \<open>docs_dir\<close>: for each
  \<open>uid\<close> with a file \<open>uid.txt\<close>, the dictionary stored in it. \<open>stop_event\<close> is the
  value of \<open>stop_event and stop_event.is_set()\<close>, the flag shared with the server
  thread.\<close>

record session =
  round_count :: int
  doc_count :: int
  useless_list :: "string set"
  last_act :: pyval
  task_complete :: bool
  docs :: "string \<rightharpoonup> (string \<rightharpoonup> pyval)"
  stop_event :: bool
  calls :: "call list"

text \<open>What the outside world does in one round: whether \<open>/stop_exploration\<close> sets the
  flag while the round runs, the elements \<open>UIElement.process_node_data(node_data)\<close>
  yields, the status of the exploration request and \<open>parse_explore_rsp(rsp)\<close>, the value
  the driver returns for the gesture, the status of the reflection request,
  \<open>parse_reflect_rsp(rsp)\<close> when the request succeeded and the reply \<open>rsp\<close> itself
  when it failed, and the value \<open>back()\<close> returns.\<close>

record round_env =
  stop_request :: bool
  node_elems :: "UIElement list"
  explore_status :: bool
  explore_rsp :: "pyval list"
  gesture_ret :: string
  reflect_status :: bool
  reflect_rsp :: "pyval list"
  reflect_failure :: pyobj
  back_ret :: string

text \<open>How control leaves a piece of the loop body: \<open>continue\<close> (or falling off the end
  of the body), \<open>break\<close>, or an exception.\<close>

datatype flow = Continue session | Break session | Raise py_error session

fun flow_session :: "flow \<Rightarrow> session" where
  "flow_session (Continue s) = s"
| "flow_session (Break s) = s"
| "flow_session (Raise e s) = s"

subsection \<open>Deciding and executing the action (lines 300 to 387)\<close>

text \<open>Lines 321 to 329: \<open>tl, br = elem.bbox\<close>, the centre of the box, plus the
  offset.\<close>

definition center :: "init_data \<Rightarrow> UIElement \<Rightarrow> rat \<times> rat" where
  "center ini el =
     (let top_left = fst (bbox el); bottom_right = snd (bbox el);
          center_x = (fst top_left + fst bottom_right) / 2;
          center_y = (snd top_left + snd bottom_right) / 2
      in (center_x + init_x ini, center_y + init_y ini))"

text \<open>Lines 321 to 381: the point, then the driver call for the action. \<open>Inr\<close> means
  that control goes on to line 384.\<close>

definition gesture ::
  "init_data \<Rightarrow> round_env \<Rightarrow> string \<Rightarrow> int \<Rightarrow> pyval list \<Rightarrow> UIElement \<Rightarrow> session
    \<Rightarrow> flow + (session \<times> string \<times> int \<times> pyval list)" where
  "gesture ini r act_name area res el s =
     (let center_x = fst (center ini el); center_y = snd (center ini el)
      in if act_name = ''tap'' then
           (let s' = s\<lparr>calls := calls s @ [Tap center_x center_y]\<rparr>
            in if gesture_ret r = ''ERROR'' then Inl (Break s')
               else Inr (s', act_name, area, res))
         else if act_name = ''long_press'' then
           (let s' = s\<lparr>calls := calls s @ [Long_press center_x center_y]\<rparr>
            in if gesture_ret r = ''ERROR'' then Inl (Break s')
               else Inr (s', act_name, area, res))
         else if act_name = ''swipe'' then
           (case unpack3 res of
              Inl e \<Rightarrow> Inl (Raise e s)
            | Inr (_, swipe_dir, swipe_dist) \<Rightarrow>
                (let s' = s\<lparr>calls := calls s @ [Swipe center_x center_y swipe_dir swipe_dist]\<rparr>
                 in if gesture_ret r = ''ERROR'' then Inl (Break s')
                    else Inr (s', act_name, area, res)))
         else Inr (s, act_name, area, res))"

text \<open>Lines 300 to 387. After \<open>area - 1\<close> has succeeded \<open>area\<close> is an integer, and is
  passed on as one.\<close>

definition act_stage ::
  "init_data \<Rightarrow> round_env \<Rightarrow> UIElement list \<Rightarrow> session
    \<Rightarrow> flow + (session \<times> string \<times> int \<times> pyval list)" where
  "act_stage ini r elem_list s0 =
     (let s1 = s0\<lparr>calls := calls s0 @ [Explore_model]\<rparr>
      in if explore_status r then
           (case py_getitem (explore_rsp r) 0 of
              Inl e \<Rightarrow> Inl (Raise e s1)
            | Inr name \<Rightarrow>
           (case py_getitem (explore_rsp r) (- 1) of
              Inl e \<Rightarrow> Inl (Raise e s1)
            | Inr la \<Rightarrow>
               (let s2 = s1\<lparr>last_act := la\<rparr>; res = butlast (explore_rsp r)
                in case name of
                     PInt n \<Rightarrow> Inl (Break s2)
                   | PStr act_name \<Rightarrow>
                       if act_name = ''FINISH'' then Inl (Break (s2\<lparr>task_complete := True\<rparr>))
                       else if act_name \<in> set [''tap'', ''long_press'', ''swipe''] then
                         (case unpack2 res of
                            Inl e \<Rightarrow> Inl (Raise e s2)
                          | Inr (_, area) \<Rightarrow>
                         (case py_sub1 area of
                            Inl e \<Rightarrow> Inl (Raise e s2)
                          | Inr i \<Rightarrow>
                         (case py_getitem elem_list i of
                            Inl e \<Rightarrow> Inl (Raise e s2)
                          | Inr el \<Rightarrow> gesture ini r act_name (i + 1) res el s2)))
                       else Inl (Break s2))))
         else Inl (Break s1))"

text \<open>The state of the session when the stage is over, however it ended.\<close>

fun stage_session :: "flow + (session \<times> string \<times> int \<times> pyval list) \<Rightarrow> session" where
  "stage_session (Inl fl) = flow_session fl"
| "stage_session (Inr (s, rest)) = s"

subsection \<open>Reflection and documentation (lines 389 to 507)\<close>

definition empty_doc :: "string \<rightharpoonup> pyval" where
  "empty_doc = [''tap'' \<mapsto> PStr '''', ''text'' \<mapsto> PStr '''', ''v_swipe'' \<mapsto> PStr '''',
                ''h_swipe'' \<mapsto> PStr '''', ''long_press'' \<mapsto> PStr '''']"

text \<open>Lines 493 to 499: store the text in its slot, write the file, count it.\<close>

definition save_doc :: "string \<Rightarrow> (string \<rightharpoonup> pyval) \<Rightarrow> string \<Rightarrow> pyval \<Rightarrow> session \<Rightarrow> flow" where
  "save_doc resource_id doc_content act_name doc s =
     Continue (s\<lparr>docs := (docs s)(resource_id \<mapsto> doc_content(act_name \<mapsto> doc)),
                 doc_count := doc_count s + 1,
                 calls := calls s @ [Write_doc resource_id]\<rparr>)"

text \<open>Lines 474 to 499.\<close>

definition document :: "round_env \<Rightarrow> string \<Rightarrow> string \<Rightarrow> session \<Rightarrow> flow" where
  "document r resource_id act_name s =
     (case py_getitem (reflect_rsp r) (- 1) of
        Inl e \<Rightarrow> Raise e s
      | Inr doc \<Rightarrow>
          (case docs s resource_id of
             Some doc_content \<Rightarrow>
               (case doc_content act_name of
                  None \<Rightarrow> Raise (KeyError (quoted act_name)) s
                | Some old \<Rightarrow>
                    if truthy old then Continue s
                    else save_doc resource_id doc_content act_name doc s)
           | None \<Rightarrow> save_doc resource_id empty_doc act_name doc s))"

text \<open>Lines 438 to 505. When the request fails, line 504 reads
  \<open>rsp["error"]["message"]\<close> before it leaves the loop; either subscript can
  raise.\<close>

definition reflect :: "round_env \<Rightarrow> UIElement list \<Rightarrow> string \<Rightarrow> int \<Rightarrow> session \<Rightarrow> flow" where
  "reflect r elem_list act_name area s0 =
     (let s1 = s0\<lparr>calls := calls s0 @ [Reflect_model]\<rparr>
      in if reflect_status r then
           (case py_getitem elem_list (area - 1) of
              Inl e \<Rightarrow> Raise e s1
            | Inr el \<Rightarrow>
           (case py_getitem (reflect_rsp r) 0 of
              Inl e \<Rightarrow> Raise e s1
            | Inr decision \<Rightarrow>
               (let resource_id = uid el
                in if decision = PStr ''ERROR'' then Break s1
                   else if decision = PStr ''INEFFECTIVE'' then
                     Continue (s1\<lparr>useless_list := insert resource_id (useless_list s1),
                                  last_act := PStr ''None''\<rparr>)
                   else if decision = PStr ''BACK'' \<or> decision = PStr ''CONTINUE''
                           \<or> decision = PStr ''SUCCESS'' then
                     (if decision = PStr ''BACK'' \<or> decision = PStr ''CONTINUE'' then
                        (let s2 = s1\<lparr>useless_list := insert resource_id (useless_list s1),
                                      last_act := PStr ''None''\<rparr>
                         in if decision = PStr ''BACK'' then
                              (let s3 = s2\<lparr>calls := calls s2 @ [Back]\<rparr>
                               in if back_ret r = ''ERROR'' then Break s3
                                  else document r resource_id act_name s3)
                            else document r resource_id act_name s2)
                      else document r resource_id act_name s1)
                   else Break s1)))
         else
           (case py_subscript (reflect_failure r) ''error'' of
              Inl e \<Rightarrow> Raise e s1
            | Inr err \<Rightarrow>
           (case py_subscript err ''message'' of
              Inl e \<Rightarrow> Raise e s1
            | Inr message \<Rightarrow> Break s1)))"

text \<open>Lines 406 to 436: the action kind selects the reflection prompt; \<open>text\<close> goes
  to the next round, anything unknown leaves the loop.\<close>

definition reflect_stage ::
  "round_env \<Rightarrow> UIElement list \<Rightarrow> string \<Rightarrow> int \<Rightarrow> pyval list \<Rightarrow> session \<Rightarrow> flow" where
  "reflect_stage r elem_list act_name area res s =
     (if act_name = ''tap'' then reflect r elem_list act_name area s
      else if act_name = ''text'' then Continue s
      else if act_name = ''long_press'' then reflect r elem_list act_name area s
      else if act_name = ''swipe'' then
        (case py_getitem res 2 of
           Inl e \<Rightarrow> Raise e s
         | Inr swipe_dir \<Rightarrow>
             reflect r elem_list
               (if swipe_dir = PStr ''up'' \<or> swipe_dir = PStr ''down'' then ''v_swipe''
                else if swipe_dir = PStr ''left'' \<or> swipe_dir = PStr ''right'' then ''h_swipe''
                else act_name)
               area s)
      else Break s)"

subsection \<open>One round and the loop (lines 231 to 507)\<close>

text \<open>Lines 266 to 270: the elements of the round, without those in
  \<open>useless_list\<close>.\<close>

definition elem_list_of :: "session \<Rightarrow> UIElement list \<Rightarrow> UIElement list" where
  "elem_list_of s elems = filter (\<lambda>elem. uid elem \<notin> useless_list s) elems"

text \<open>The loop body after the stop check, from \<open>round_count += 1\<close> on.\<close>

definition round_body :: "init_data \<Rightarrow> round_env \<Rightarrow> session \<Rightarrow> flow" where
  "round_body ini r s0 =
     (let s1 = s0\<lparr>round_count := round_count s0 + 1\<rparr>;
          elem_list = elem_list_of s1 (node_elems r)
      in case act_stage ini r elem_list s1 of
           Inl fl \<Rightarrow> fl
         | Inr (s2, act_name, area, res) \<Rightarrow> reflect_stage r elem_list act_name area res s2)"

text \<open>No part of the body touches \<open>round_count\<close> after the increment; the loop
  below terminates for this reason.\<close>

lemma gesture_round_count:
  "round_count (stage_session (gesture ini r a area res el s)) = round_count s"
  by (simp add: gesture_def Let_def split: sum.split prod.split)

lemma act_stage_round_count:
  "round_count (stage_session (act_stage ini r elems s)) = round_count s"
  by (simp add: act_stage_def gesture_round_count Let_def
      split: sum.split prod.split pyval.split)

lemma document_round_count:
  "round_count (flow_session (document r u a s)) = round_count s"
  by (simp add: document_def save_doc_def split: sum.splits option.splits)

lemma reflect_round_count:
  "round_count (flow_session (reflect r elems a area s)) = round_count s"
  by (simp add: reflect_def Let_def document_round_count split: sum.splits)

lemma reflect_stage_round_count:
  "round_count (flow_session (reflect_stage r elems a area res s)) = round_count s"
  by (simp add: reflect_stage_def reflect_round_count split: sum.splits)

lemma round_body_round_count:
  "round_count (flow_session (round_body ini r s)) = round_count s + 1"
proof -
  let ?s1 = "s\<lparr>round_count := round_count s + 1\<rparr>"
  let ?elems = "elem_list_of ?s1 (node_elems r)"
  have rc: "round_count (stage_session (act_stage ini r ?elems ?s1)) = round_count s + 1"
    by (simp add: act_stage_round_count)
  show ?thesis
  proof (cases "act_stage ini r ?elems ?s1")
    case (Inl fl)
    with rc show ?thesis by (simp add: round_body_def Let_def)
  next
    case (Inr t)
    obtain s2 a area res where t: "t = (s2, a, area, res)"
      by (cases t) auto
    with rc Inr show ?thesis
      by (simp add: round_body_def Let_def reflect_stage_round_count)
  qed
qed

text \<open>Lines 231 to 507, one pass through the \<open>while\<close> loop: the loop condition, the
  stop check at line 232, the body. \<open>env k\<close> is what the outside world does in round
  \<open>k\<close>. \<open>Inr\<close> is the state in which the loop condition is evaluated next; a stop
  request made while the round ran has set the shared flag by then. \<open>Inl\<close> is the
  way the loop ended.\<close>

datatype loop_end = Finished session | Failed py_error session

fun end_session :: "loop_end \<Rightarrow> session" where
  "end_session (Finished s) = s"
| "end_session (Failed e s) = s"

definition loop_step ::
  "configs \<Rightarrow> init_data \<Rightarrow> (int \<Rightarrow> round_env) \<Rightarrow> session \<Rightarrow> loop_end + session" where
  "loop_step cfg ini env s =
     (if round_count s < MAX_ROUNDS cfg then
        (if stop_event s then Inl (Finished s)
         else
           (case round_body ini (env (round_count s + 1)) s of
              Continue s' \<Rightarrow>
                Inr (s'\<lparr>stop_event := stop_event s' \<or> stop_request (env (round_count s + 1))\<rparr>)
            | Break s' \<Rightarrow> Inl (Finished s')
            | Raise e s' \<Rightarrow> Inl (Failed e s')))
      else Inl (Finished s))"

lemma loop_step_Inr:
  assumes "loop_step cfg ini env s = Inr s'"
  shows "round_count s < MAX_ROUNDS cfg" and "round_count s' = round_count s + 1"
proof -
  show lt: "round_count s < MAX_ROUNDS cfg"
    using assms by (simp add: loop_step_def split: if_splits)
  from assms lt obtain s1 where "round_body ini (env (round_count s + 1)) s = Continue s1"
    and "s' = s1\<lparr>stop_event := stop_event s1 \<or> stop_request (env (round_count s + 1))\<rparr>"
    by (auto simp: loop_step_def split: if_splits flow.splits)
  then show "round_count s' = round_count s + 1"
    using round_body_round_count [of ini "env (round_count s + 1)" s] by simp
qed

function run_loop :: "configs \<Rightarrow> init_data \<Rightarrow> (int \<Rightarrow> round_env) \<Rightarrow> session \<Rightarrow> loop_end" where
  "run_loop cfg ini env s =
     (case loop_step cfg ini env s of
        Inl fin \<Rightarrow> fin
      | Inr s' \<Rightarrow> run_loop cfg ini env s')"
  by pat_completeness auto
termination
proof (relation "measure (\<lambda>(cfg, ini, env, s). nat (MAX_ROUNDS cfg - round_count s))")
  show "wf (measure (\<lambda>(cfg, ini, env, s). nat (MAX_ROUNDS cfg - round_count s)))"
    by simp
next
  fix cfg :: configs and ini :: init_data and env :: "int \<Rightarrow> round_env"
    and s s' :: session
  assume "loop_step cfg ini env s = Inr s'"
  from loop_step_Inr [OF this]
  show "((cfg, ini, env, s'), (cfg, ini, env, s))
          \<in> measure (\<lambda>(cfg, ini, env, s). nat (MAX_ROUNDS cfg - round_count s))"
    by simp
qed

declare run_loop.simps [simp del]

text \<open>The state at the loop head \<open>n\<close> passes later, if the loop gets that far.\<close>

fun loop_head ::
  "configs \<Rightarrow> init_data \<Rightarrow> (int \<Rightarrow> round_env) \<Rightarrow> nat \<Rightarrow> session \<Rightarrow> session option" where
  "loop_head cfg ini env 0 s = Some s"
| "loop_head cfg ini env (Suc n) s =
     (case loop_step cfg ini env s of
        Inl fin \<Rightarrow> None
      | Inr s' \<Rightarrow> loop_head cfg ini env n s')"

subsection \<open>The result (lines 207 to 211 and 531 to 543)\<close>

datatype rval = RStr string | RBool bool | RInt int

text \<open>The dictionary \<open>run_exploration\<close> returns: the summary after the loop, or the
  one built by the \<open>except\<close> clause.\<close>

fun result_of :: "loop_end \<Rightarrow> (string \<times> rval) list" where
  "result_of (Finished s) =
     [(''status'', RStr (if task_complete s then ''success'' else ''incomplete'')),
      (''task_complete'', RBool (task_complete s)),
      (''rounds'', RInt (round_count s)),
      (''docs_generated'', RInt (doc_count s))]"
| "result_of (Failed e s) =
     [(''status'', RStr ''error''),
      (''message'', RStr (''Error during exploration: '' @ str_of_error e))]"

text \<open>The variables as initialised at lines 207 to 211, with the documentation files
  already on disk and the state of the stop flag when the loop is entered.\<close>

definition init_session :: "(string \<rightharpoonup> (string \<rightharpoonup> pyval)) \<Rightarrow> bool \<Rightarrow> session" where
  "init_session docs0 stop0 =
     \<lparr>round_count = 0, doc_count = 0, useless_list = {}, last_act = PStr ''None'',
      task_complete = False, docs = docs0, stop_event = stop0, calls = []\<rparr>"

definition run_exploration ::
  "configs \<Rightarrow> init_data \<Rightarrow> (int \<Rightarrow> round_env) \<Rightarrow> (string \<rightharpoonup> (string \<rightharpoonup> pyval)) \<Rightarrow> bool
    \<Rightarrow> (string \<times> rval) list" where
  "run_exploration cfg ini env docs0 stop0 =
     result_of (run_loop cfg ini env (init_session docs0 stop0))"

subsection \<open>Reading the documentation store\<close>

text \<open>The text stored for an element and an action kind: \<open>None\<close> when the element
  has no file or the dictionary in it has no such key.\<close>

definition doc_slot :: "session \<Rightarrow> string \<Rightarrow> string \<Rightarrow> pyval option" where
  "doc_slot s resource_id act_name =
     (case docs s resource_id of
        None \<Rightarrow> None
      | Some doc_content \<Rightarrow> doc_content act_name)"

subsection \<open>A sample screen and session\<close>

text \<open>Three elements, the second with the box \<open>((10, 10), (30, 30))\<close>; a round in
  which every collaborator answers, with the given parsed decision and verdict; three
  rounds at most; the canvas at offset \<open>(100, 200)\<close>.\<close>

definition demo_elems :: "UIElement list" where
  "demo_elems =
     [\<lparr>uid = ''a'', bbox = ((0, 0), (10, 10))\<rparr>,
      \<lparr>uid = ''b'', bbox = ((10, 10), (30, 30))\<rparr>,
      \<lparr>uid = ''c'', bbox = ((40, 40), (60, 80))\<rparr>]"

definition demo_round :: "pyval list \<Rightarrow> pyval list \<Rightarrow> round_env" where
  "demo_round decision verdict =
     \<lparr>stop_request = False, node_elems = demo_elems, explore_status = True,
      explore_rsp = decision, gesture_ret = ''OK'', reflect_status = True,
      reflect_rsp = verdict,
      reflect_failure = Dict [(''error'', Dict [(''message'', Str ''request failed'')])],
      back_ret = ''OK''\<rparr>"

definition demo_cfg :: configs where
  "demo_cfg = \<lparr>MAX_ROUNDS = 3\<rparr>"

definition demo_ini :: init_data where
  "demo_ini = \<lparr>init_x = 100, init_y = 200\<rparr>"

lemmas loop_defs = run_exploration_def init_session_def loop_step_def round_body_def
  act_stage_def gesture_def center_def reflect_stage_def reflect_def document_def
  save_doc_def empty_doc_def py_getitem_def elem_list_of_def Let_def

lemmas demo_defs = demo_elems_def demo_round_def demo_cfg_def demo_ini_def

section \<open>Properties\<close>

subsection \<open>Indexing and unpacking\<close>

lemma py_getitem_first: "py_getitem (x # xs) 0 = Inr x"
  by (simp add: py_getitem_def)

lemma py_getitem_last: "xs \<noteq> [] \<Longrightarrow> py_getitem xs (- 1) = Inr (last xs)"
  by (cases xs rule: rev_cases) (auto simp: py_getitem_def nth_append)

lemma py_getitem_in_set: "py_getitem xs i = Inr x \<Longrightarrow> x \<in> set xs"
  by (auto simp: py_getitem_def split: if_splits)

lemma unpack2_Inr: "unpack2 xs = Inr (a, b) \<Longrightarrow> xs = [a, b]"
  by (cases xs rule: unpack2.cases) auto

lemma unpack3_of_pair: "unpack3 [a, b] = Inl (ValueError ''not enough values to unpack (expected 3, got 2)'')"
  by simp

subsection \<open>What the decision stage does, by kind of decision\<close>


lemma act_stage_finish:
  assumes "explore_status r" "explore_rsp r = PStr ''FINISH'' # rest"
  shows "act_stage ini r elems s =
    Inl (Break (s\<lparr>calls := calls s @ [Explore_model], last_act := last (explore_rsp r),
                 task_complete := True\<rparr>))"
  using assms py_getitem_last [of "explore_rsp r"]
  by (simp add: act_stage_def py_getitem_first)


lemma act_stage_swipe:
  assumes "explore_status r" "explore_rsp r = PStr ''swipe'' # rest"
  shows "\<exists>e. act_stage ini r elems s =
    Inl (Raise e (s\<lparr>calls := calls s @ [Explore_model], last_act := last (explore_rsp r)\<rparr>))"
proof -
  let ?res = "butlast (explore_rsp r)"
  let ?s2 = "s\<lparr>calls := calls s @ [Explore_model], last_act := last (explore_rsp r)\<rparr>"
  show ?thesis
  proof (cases "unpack2 ?res")
    case (Inl e)
    with assms py_getitem_last [of "explore_rsp r"] show ?thesis
      by (simp add: act_stage_def py_getitem_first)
  next
    case (Inr p)
    obtain u area where p: "p = (u, area)" by (cases p)
    from Inr p have res: "?res = [u, area]" by (simp add: unpack2_Inr)
    show ?thesis
      using assms py_getitem_last [of "explore_rsp r"] Inr p res
      by (auto simp add: act_stage_def py_getitem_first gesture_def Let_def split: sum.splits)
  qed
qed

lemma butlast_pair_head: "butlast xs = [a, b] \<Longrightarrow> py_getitem xs 0 = Inr x \<Longrightarrow> x = a"
  by (cases xs) (auto simp: py_getitem_def split: if_splits)

lemma py_sub1_Inr: "py_sub1 v = Inr i \<Longrightarrow> v = PInt (i + 1)"
  by (cases v) auto

lemma unpack2_Inr_iff: "unpack2 xs = Inr (a, b) \<longleftrightarrow> xs = [a, b]"
  by (cases xs rule: unpack2.cases) auto

text \<open>The stage hands over to the reflection only after a \<open>tap\<close> or a \<open>long_press\<close>
  that the driver accepted, on the element the index resolved to.\<close>

lemma act_stage_acted:
  "case act_stage ini r elems s of
     Inl fl \<Rightarrow> True
   | Inr (s', a, area, res) \<Rightarrow>
       (a = ''tap'' \<or> a = ''long_press'') \<and> explore_status r \<and> gesture_ret r \<noteq> ''ERROR''
       \<and> butlast (explore_rsp r) = [PStr a, PInt area] \<and> res = [PStr a, PInt area]
       \<and> (\<exists>el la. py_getitem elems (area - 1) = Inr el
             \<and> py_getitem (explore_rsp r) (- 1) = Inr la
             \<and> s' = s\<lparr>calls := calls s @ [Explore_model,
                         (if a = ''tap'' then Tap else Long_press)
                           (fst (center ini el)) (snd (center ini el))],
                       last_act := la\<rparr>)"
  by (simp add: act_stage_def gesture_def Let_def unpack2_Inr_iff
      split: sum.split prod.split pyval.split)
     (auto dest: butlast_pair_head py_sub1_Inr)

lemma act_stage_Inr:
  assumes "act_stage ini r elems s = Inr (s', a, area, res)"
  shows "a = ''tap'' \<or> a = ''long_press''"
  using act_stage_acted [where ini = ini and r = r and elems = elems and s = s] assms by simp

lemma round_body_Inl:
  "act_stage ini r (elem_list_of s (node_elems r)) (s\<lparr>round_count := round_count s + 1\<rparr>) = Inl fl
   \<Longrightarrow> round_body ini r s = fl"
  by (simp add: round_body_def elem_list_of_def)


subsection \<open>A \<open>text\<close> decision\<close>

text \<open>
  C1. A decision of kind \<open>text\<close> is meant to lead to the next round without reflection
  and without documentation (the arm \<open>elif act_name == "text": continue\<close> at line
  412). The code does not get there: \<open>text\<close> is not one of \<open>tap\<close>, \<open>long_press\<close>,
  \<open>swipe\<close>, so the \<open>else: break\<close> at line 383 leaves the loop. In the sample
  session of three rounds whose decision is \<open>text("hi")\<close>, the session ends in round 1
  with status \<open>incomplete\<close>, after the exploration request alone, and there is no second
  pass through the loop.
\<close>

theorem text_decision_ends_session:
  "run_exploration demo_cfg demo_ini
      (\<lambda>k. demo_round [PStr ''text'', PStr ''hi'', PStr ''typed hi''] []) Map.empty False
     = [(''status'', RStr ''incomplete''), (''task_complete'', RBool False),
        (''rounds'', RInt 1), (''docs_generated'', RInt 0)]
   \<and> calls (end_session (run_loop demo_cfg demo_ini
        (\<lambda>k. demo_round [PStr ''text'', PStr ''hi'', PStr ''typed hi''] [])
        (init_session Map.empty False))) = [Explore_model]
   \<and> loop_head demo_cfg demo_ini
        (\<lambda>k. demo_round [PStr ''text'', PStr ''hi'', PStr ''typed hi''] []) (Suc 0)
        (init_session Map.empty False) = None"
  by (simp add: run_loop.simps loop_defs demo_defs)

subsection \<open>Unfolding the loop\<close>

lemma run_loop_Inl: "loop_step cfg ini env s = Inl fin \<Longrightarrow> run_loop cfg ini env s = fin"
  by (simp add: run_loop.simps)

lemma run_loop_Inr:
  "loop_step cfg ini env s = Inr s' \<Longrightarrow> run_loop cfg ini env s = run_loop cfg ini env s'"
  by (subst run_loop.simps) simp

lemma loop_step_body:
  "round_count s < MAX_ROUNDS cfg \<Longrightarrow> \<not> stop_event s \<Longrightarrow>
   loop_step cfg ini env s =
     (case round_body ini (env (round_count s + 1)) s of
        Continue s' \<Rightarrow>
          Inr (s'\<lparr>stop_event := stop_event s' \<or> stop_request (env (round_count s + 1))\<rparr>)
      | Break s' \<Rightarrow> Inl (Finished s')
      | Raise e s' \<Rightarrow> Inl (Failed e s'))"
  by (simp add: loop_step_def)

lemma run_loop_Break:
  "round_count s < MAX_ROUNDS cfg \<Longrightarrow> \<not> stop_event s \<Longrightarrow>
   round_body ini (env (round_count s + 1)) s = Break s' \<Longrightarrow>
   run_loop cfg ini env s = Finished s'"
  by (rule run_loop_Inl) (simp add: loop_step_body)

lemma run_loop_Raise:
  "round_count s < MAX_ROUNDS cfg \<Longrightarrow> \<not> stop_event s \<Longrightarrow>
   round_body ini (env (round_count s + 1)) s = Raise e s' \<Longrightarrow>
   run_loop cfg ini env s = Failed e s'"
  by (rule run_loop_Inl) (simp add: loop_step_body)

subsection \<open>A \<open>FINISH\<close> decision\<close>

lemma round_body_finish:
  assumes "explore_status r" "explore_rsp r = PStr ''FINISH'' # rest"
  shows "round_body ini r s =
    Break (s\<lparr>round_count := round_count s + 1, calls := calls s @ [Explore_model],
              last_act := last (explore_rsp r), task_complete := True\<rparr>)"
  using round_body_Inl [OF act_stage_finish [OF assms]] by simp

text \<open>
  C4. When the decision of round \<open>k\<close> is \<open>FINISH\<close> (the loop is at its head with
  \<open>round_count = k - 1\<close>, below the maximum and not stopped, and the exploration request
  succeeds), the loop ends in that round: \<open>round_count\<close> is \<open>k\<close>, \<open>task_complete\<close>
  is set, the only call of the round is the exploration request (no gesture, no
  reflection request), and the result reports status \<open>success\<close>.
\<close>

theorem finish_ends_session:
  assumes "round_count s < MAX_ROUNDS cfg" and "\<not> stop_event s"
    and "explore_status (env (round_count s + 1))"
    and "explore_rsp (env (round_count s + 1)) = PStr ''FINISH'' # rest"
  shows "run_loop cfg ini env s =
           Finished (s\<lparr>round_count := round_count s + 1,
                       calls := calls s @ [Explore_model],
                       last_act := last (explore_rsp (env (round_count s + 1))),
                       task_complete := True\<rparr>)
         \<and> result_of (run_loop cfg ini env s) =
             [(''status'', RStr ''success''), (''task_complete'', RBool True),
              (''rounds'', RInt (round_count s + 1)), (''docs_generated'', RInt (doc_count s))]"
proof -
  have "run_loop cfg ini env s =
           Finished (s\<lparr>round_count := round_count s + 1,
                       calls := calls s @ [Explore_model],
                       last_act := last (explore_rsp (env (round_count s + 1))),
                       task_complete := True\<rparr>)"
    using assms(1,2) round_body_finish [OF assms(3,4)] by (rule run_loop_Break)
  then show ?thesis by simp
qed

theorem finish_ends_session_witness:
  "run_exploration demo_cfg demo_ini (\<lambda>k. demo_round [PStr ''FINISH''] []) Map.empty False =
     [(''status'', RStr ''success''), (''task_complete'', RBool True),
      (''rounds'', RInt 1), (''docs_generated'', RInt 0)]
   \<and> calls (end_session (run_loop demo_cfg demo_ini (\<lambda>k. demo_round [PStr ''FINISH''] [])
        (init_session Map.empty False))) = [Explore_model]"
  using finish_ends_session [of "init_session Map.empty False" demo_cfg
      "\<lambda>k. demo_round [PStr ''FINISH''] []" "[]" demo_ini]
  by (simp add: run_exploration_def init_session_def demo_defs)

subsection \<open>An element index that does not resolve\<close>

lemma butlast_two:
  "butlast (x # y # rest) = [u, v] \<Longrightarrow> u = x \<and> v = y"
  by (cases rest) (auto split: if_splits)

text \<open>
  C5. A \<open>tap\<close>, \<open>long_press\<close> or \<open>swipe\<close> decision whose index \<open>i\<close> does not
  resolve in the element list of the round (\<open>elem_list[i - 1]\<close> raises) ends the
  session by an exception in that round: nothing is retried, no gesture reaches the
  driver, and the result has status \<open>error\<close>.
\<close>

theorem unresolved_index_aborts:
  assumes "round_count s < MAX_ROUNDS cfg" and "\<not> stop_event s"
    and "explore_status (env (round_count s + 1))"
    and "explore_rsp (env (round_count s + 1)) = PStr a # PInt i # rest"
    and "a = ''tap'' \<or> a = ''long_press'' \<or> a = ''swipe''"
    and "py_getitem (elem_list_of s (node_elems (env (round_count s + 1)))) (i - 1) = Inl e0"
  shows "\<exists>e s'. run_loop cfg ini env s = Failed e s'
            \<and> round_count s' = round_count s + 1
            \<and> calls s' = calls s @ [Explore_model]
            \<and> result_of (run_loop cfg ini env s) =
                 [(''status'', RStr ''error''),
                  (''message'', RStr (''Error during exploration: '' @ str_of_error e))]"
proof -
  let ?r = "env (round_count s + 1)"
  let ?s1 = "s\<lparr>round_count := round_count s + 1\<rparr>"
  let ?s2 = "s\<lparr>round_count := round_count s + 1, calls := calls s @ [Explore_model],
               last_act := last (explore_rsp ?r)\<rparr>"
  have "\<exists>e. act_stage ini ?r (elem_list_of s (node_elems ?r)) ?s1 = Inl (Raise e ?s2)"
  proof (cases "unpack2 (butlast (explore_rsp ?r))")
    case (Inl e)
    with assms(3-5) py_getitem_last [of "explore_rsp ?r"] show ?thesis
      by (auto simp add: act_stage_def py_getitem_first)
  next
    case (Inr p)
    obtain u area where p: "p = (u, area)" by (cases p)
    from Inr p have "butlast (explore_rsp ?r) = [u, area]" by (simp add: unpack2_Inr)
    with assms(4) have "area = PInt i" using butlast_two by metis
    with assms(3-6) py_getitem_last [of "explore_rsp ?r"] Inr p show ?thesis
      by (auto simp add: act_stage_def py_getitem_first)
  qed
  then obtain e where "round_body ini ?r s = Raise e ?s2"
    using round_body_Inl by blast
  with assms(1,2) have "run_loop cfg ini env s = Failed e ?s2"
    by (rule run_loop_Raise)
  then show ?thesis by simp
qed

theorem unresolved_index_aborts_witness:
  "run_exploration demo_cfg demo_ini (\<lambda>k. demo_round [PStr ''tap'', PInt 4, PStr ''tapped''] [])
      Map.empty False =
     [(''status'', RStr ''error''),
      (''message'', RStr ''Error during exploration: list index out of range'')]"
  using unresolved_index_aborts [of "init_session Map.empty False" demo_cfg
      "\<lambda>k. demo_round [PStr ''tap'', PInt 4, PStr ''tapped''] []" "''tap''" 4 "[PStr ''tapped'']"
      "IndexError ''list index out of range''" demo_ini]
  by (simp add: run_loop.simps loop_defs demo_defs)

subsection \<open>Invariants of the loop\<close>

lemma loop_step_Inl_session:
  "loop_step cfg ini env s = Inl fin \<Longrightarrow>
   end_session fin = s \<or> end_session fin = flow_session (round_body ini (env (round_count s + 1)) s)"
  by (auto simp: loop_step_def split: if_splits flow.splits)

lemma loop_step_Inr_session:
  "loop_step cfg ini env s = Inr s' \<Longrightarrow>
   \<exists>s1. round_body ini (env (round_count s + 1)) s = Continue s1
     \<and> s' = s1\<lparr>stop_event := stop_event s1 \<or> stop_request (env (round_count s + 1))\<rparr>"
  by (auto simp: loop_step_def split: if_splits flow.splits)

lemma run_loop_invariant:
  assumes "P s"
    and "\<And>s r. P s \<Longrightarrow> P (flow_session (round_body ini r s))"
    and "\<And>s b. P s \<Longrightarrow> P (s\<lparr>stop_event := b\<rparr>)"
  shows "P (end_session (run_loop cfg ini env s))"
  using assms
proof (induction cfg ini env s rule: run_loop.induct)
  case (1 cfg ini env s)
  note body = "1.prems"(2) and flag = "1.prems"(3)
  let ?fl = "round_body ini (env (round_count s + 1)) s"
  have fl: "P (flow_session ?fl)" by (rule body [OF "1.prems"(1)])
  show ?case
  proof (cases "loop_step cfg ini env s")
    case (Inl fin)
    from loop_step_Inl_session [OF Inl] "1.prems"(1) fl have "P (end_session fin)" by auto
    with Inl show ?thesis by (simp add: run_loop_Inl)
  next
    case (Inr s')
    from loop_step_Inr_session [OF Inr] obtain s1 b
      where "?fl = Continue s1" "s' = s1\<lparr>stop_event := b\<rparr>" by blast
    with fl have "P s'" using flag by simp
    from "1.IH" [OF Inr this body flag] Inr show ?thesis by (simp add: run_loop_Inr)
  qed
qed

lemma loop_head_invariant:
  assumes "P s"
    and body: "\<And>s r. P s \<Longrightarrow> P (flow_session (round_body ini r s))"
    and flag: "\<And>s b. P s \<Longrightarrow> P (s\<lparr>stop_event := b\<rparr>)"
    and "loop_head cfg ini env n s = Some s'"
  shows "P s'"
  using assms(1,4)
proof (induction n arbitrary: s)
  case 0
  then show ?case by simp
next
  case (Suc n)
  from Suc.prems(2) obtain s1 where step: "loop_step cfg ini env s = Inr s1"
    and rest: "loop_head cfg ini env n s1 = Some s'"
    by (auto split: sum.splits)
  from loop_step_Inr_session [OF step] obtain s2 b
    where "round_body ini (env (round_count s + 1)) s = Continue s2" "s1 = s2\<lparr>stop_event := b\<rparr>"
    by blast
  with body [OF Suc.prems(1), of "env (round_count s + 1)"] have "P s1"
    using flag by simp
  from Suc.IH [OF this rest] show ?case .
qed

subsection \<open>What the decision stage leaves alone\<close>

lemma act_stage_frame:
  "docs (stage_session (act_stage ini r elems s)) = docs s"
  "doc_count (stage_session (act_stage ini r elems s)) = doc_count s"
  "useless_list (stage_session (act_stage ini r elems s)) = useless_list s"
  "stop_event (stage_session (act_stage ini r elems s)) = stop_event s"
  by (simp_all add: act_stage_def gesture_def Let_def split: sum.split prod.split pyval.split)

subsection \<open>A slot that holds a text is not written again\<close>

lemma document_noop:
  assumes "doc_slot s u a = Some v" "truthy v"
  shows "flow_session (document r u a s) = s"
  using assms by (simp add: document_def doc_slot_def split: sum.split option.splits)

lemma save_doc_docs:
  "docs (flow_session (save_doc u' dc' a' doc s)) = (docs s)(u' \<mapsto> dc'(a' \<mapsto> doc))"
  by (simp add: save_doc_def)

lemma save_doc_keeps:
  assumes "doc_slot s u a = Some v"
    and "u = u' \<Longrightarrow> dc' a = Some v \<and> a \<noteq> a'"
  shows "doc_slot (flow_session (save_doc u' dc' a' doc s)) u a = Some v"
  using assms by (simp add: doc_slot_def save_doc_docs)

lemma document_keeps:
  assumes "doc_slot s u a = Some v" "truthy v"
  shows "doc_slot (flow_session (document r u' a' s)) u a = Some v"
proof (cases "py_getitem (reflect_rsp r) (- 1)")
  case (Inl e)
  with assms(1) show ?thesis by (simp add: document_def)
next
  case (Inr doc)
  show ?thesis
  proof (cases "docs s u'")
    case None
    with assms(1) have "u \<noteq> u'" by (auto simp: doc_slot_def)
    then have "doc_slot (flow_session (save_doc u' empty_doc a' doc s)) u a = Some v"
      by (intro save_doc_keeps [OF assms(1)]) simp
    with Inr None show ?thesis
      by (simp add: document_def)
  next
    case (Some dc')
    show ?thesis
    proof (cases "dc' a'")
      case None
      with Inr Some assms(1) show ?thesis by (simp add: document_def)
    next
      case old: (Some old)
      show ?thesis
      proof (cases "truthy old")
        case True
        with Inr Some old assms(1) show ?thesis by (simp add: document_def)
      next
        case False
        have "u = u' \<Longrightarrow> dc' a = Some v \<and> a \<noteq> a'"
          using assms Some old False by (auto simp: doc_slot_def)
        then have "doc_slot (flow_session (save_doc u' dc' a' doc s)) u a = Some v"
          by (intro save_doc_keeps [OF assms(1)]) simp
        with Inr Some old False show ?thesis
          by (simp add: document_def)
      qed
    qed
  qed
qed

lemma reflect_keeps:
  assumes "doc_slot s u a = Some v" "truthy v"
  shows "doc_slot (flow_session (reflect r elems a' area s)) u a = Some v"
proof -
  have *: "\<And>s' u' . docs s' = docs s \<Longrightarrow> doc_slot (flow_session (document r u' a' s')) u a = Some v"
    using assms by (intro document_keeps) (simp_all add: doc_slot_def)
  show ?thesis
    using assms by (simp add: reflect_def Let_def * split: sum.split) (simp add: doc_slot_def)
qed

lemma reflect_stage_keeps:
  assumes "doc_slot s u a = Some v" "truthy v"
  shows "doc_slot (flow_session (reflect_stage r elems a' area res s)) u a = Some v"
  using assms by (simp add: reflect_stage_def reflect_keeps split: sum.split)

lemma round_body_keeps:
  assumes "doc_slot s u a = Some v" "truthy v"
  shows "doc_slot (flow_session (round_body ini r s)) u a = Some v"
proof -
  let ?s1 = "s\<lparr>round_count := round_count s + 1\<rparr>"
  let ?elems = "elem_list_of ?s1 (node_elems r)"
  have d: "docs (stage_session (act_stage ini r ?elems ?s1)) = docs s"
    by (simp add: act_stage_frame)
  show ?thesis
  proof (cases "act_stage ini r ?elems ?s1")
    case (Inl fl)
    with d assms(1) show ?thesis by (simp add: round_body_def Let_def doc_slot_def)
  next
    case (Inr t)
    obtain s2 a' area res where t: "t = (s2, a', area, res)" by (cases t) auto
    with d Inr assms(1) have "doc_slot s2 u a = Some v" by (simp add: doc_slot_def)
    from reflect_stage_keeps [OF this assms(2)] Inr t show ?thesis
      by (simp add: round_body_def Let_def)
  qed
qed

text \<open>
  C2. Once the store holds a non-empty text for an element and an action kind, the
  documentation step for that pair (lines 474 to 499) changes nothing: the session is the
  same afterwards, so the text stays, no file is written and \<open>doc_count\<close> is not
  incremented, whatever text the verdict carries. No round, and no run of the loop,
  changes the text of that slot.
\<close>

theorem documented_slot_is_kept:
  assumes "doc_slot s u a = Some (PStr t)" and "t \<noteq> ''''"
  shows "flow_session (document r u a s) = s
         \<and> doc_slot (flow_session (round_body ini r s)) u a = Some (PStr t)
         \<and> doc_slot (end_session (run_loop cfg ini env s)) u a = Some (PStr t)"
proof -
  have tr: "truthy (PStr t)" using assms(2) by simp
  have "doc_slot (end_session (run_loop cfg ini env s)) u a = Some (PStr t)"
  proof (rule run_loop_invariant [where P = "\<lambda>s. doc_slot s u a = Some (PStr t)"])
    show "doc_slot s u a = Some (PStr t)" by (rule assms(1))
  next
    fix s r assume "doc_slot s u a = Some (PStr t)"
    then show "doc_slot (flow_session (round_body ini r s)) u a = Some (PStr t)"
      using tr by (rule round_body_keeps)
  next
    fix s b assume "doc_slot s u a = Some (PStr t)"
    then show "doc_slot (s\<lparr>stop_event := b\<rparr>) u a = Some (PStr t)"
      by (simp add: doc_slot_def)
  qed
  with document_noop [OF assms(1) tr] round_body_keeps [OF assms(1) tr]
  show ?thesis by simp
qed

theorem documented_slot_is_kept_witness:
  "doc_slot (init_session [''b'' \<mapsto> empty_doc(''tap'' \<mapsto> PStr ''opens settings'')] False)
      ''b'' ''tap'' = Some (PStr ''opens settings'')
   \<and> flow_session (document
         (demo_round [PStr ''tap'', PInt 2, PStr ''tapped'']
            [PStr ''SUCCESS'', PStr ''think'', PStr ''another text''])
         ''b'' ''tap''
         (init_session [''b'' \<mapsto> empty_doc(''tap'' \<mapsto> PStr ''opens settings'')] False))
       = init_session [''b'' \<mapsto> empty_doc(''tap'' \<mapsto> PStr ''opens settings'')] False
   \<and> doc_slot (flow_session (round_body demo_ini
         (demo_round [PStr ''tap'', PInt 2, PStr ''tapped'']
            [PStr ''SUCCESS'', PStr ''think'', PStr ''another text''])
         (init_session [''b'' \<mapsto> empty_doc(''tap'' \<mapsto> PStr ''opens settings'')] False)))
       ''b'' ''tap'' = Some (PStr ''opens settings'')
   \<and> doc_count (flow_session (round_body demo_ini
         (demo_round [PStr ''tap'', PInt 2, PStr ''tapped'']
            [PStr ''SUCCESS'', PStr ''think'', PStr ''another text''])
         (init_session [''b'' \<mapsto> empty_doc(''tap'' \<mapsto> PStr ''opens settings'')] False)))
       = 0"
  using documented_slot_is_kept
    [of "init_session [''b'' \<mapsto> empty_doc(''tap'' \<mapsto> PStr ''opens settings'')] False"
        "''b''" "''tap''" "''opens settings''"
        "demo_round [PStr ''tap'', PInt 2, PStr ''tapped'']
            [PStr ''SUCCESS'', PStr ''think'', PStr ''another text'']"
        demo_ini demo_cfg
        "\<lambda>k. demo_round [PStr ''tap'', PInt 2, PStr ''tapped'']
            [PStr ''SUCCESS'', PStr ''think'', PStr ''another text'']"]
  by (simp add: loop_defs demo_defs doc_slot_def)

subsection \<open>A gesture the driver accepts\<close>

lemma act_stage_gesture:
  assumes "explore_status r" and "explore_rsp r = [PStr a, PInt i, la]"
    and "a = ''tap'' \<or> a = ''long_press''"
    and "py_getitem elems (i - 1) = Inr el"
  shows "act_stage ini r elems s =
    (if gesture_ret r = ''ERROR''
     then Inl (Break (s\<lparr>calls := calls s @ [Explore_model,
                 (if a = ''tap'' then Tap else Long_press)
                   (fst (center ini el)) (snd (center ini el))],
               last_act := la\<rparr>))
     else Inr (s\<lparr>calls := calls s @ [Explore_model,
                 (if a = ''tap'' then Tap else Long_press)
                   (fst (center ini el)) (snd (center ini el))],
               last_act := la\<rparr>, a, i, [PStr a, PInt i]))"
  using assms by (auto simp add: act_stage_def gesture_def py_getitem_first py_getitem_last)

lemma round_body_gesture:
  assumes "explore_status r" and "explore_rsp r = [PStr a, PInt i, la]"
    and "a = ''tap'' \<or> a = ''long_press''"
    and "py_getitem (elem_list_of s (node_elems r)) (i - 1) = Inr el"
    and "gesture_ret r \<noteq> ''ERROR''"
  shows "round_body ini r s =
    reflect r (elem_list_of s (node_elems r)) a i
      (s\<lparr>round_count := round_count s + 1,
         calls := calls s @ [Explore_model,
                 (if a = ''tap'' then Tap else Long_press)
                   (fst (center ini el)) (snd (center ini el))],
         last_act := la\<rparr>)"
proof -
  have el: "elem_list_of (s\<lparr>round_count := round_count s + 1\<rparr>) (node_elems r)
      = elem_list_of s (node_elems r)"
    by (simp add: elem_list_of_def)
  show ?thesis
    using assms(3,5) act_stage_gesture [OF assms(1-3), of "elem_list_of s (node_elems r)" el ini
        "s\<lparr>round_count := round_count s + 1\<rparr>", OF assms(4)]
    by (auto simp add: round_body_def el reflect_stage_def)
qed

subsection \<open>The set of uninteresting elements\<close>

lemma elem_list_of_excludes: "e \<in> set (elem_list_of s elems) \<Longrightarrow> uid e \<notin> useless_list s"
  by (simp add: elem_list_of_def)

lemma document_useless_list:
  "useless_list (flow_session (document r u a s)) = useless_list s"
  by (simp add: document_def save_doc_def split: sum.split option.split)

lemma reflect_useless_list_mono:
  "useless_list s \<subseteq> useless_list (flow_session (reflect r elems a area s))"
  by (auto simp add: reflect_def Let_def document_useless_list split: sum.split)

lemma reflect_stage_useless_list_mono:
  "useless_list s \<subseteq> useless_list (flow_session (reflect_stage r elems a area res s))"
  using reflect_useless_list_mono by (simp add: reflect_stage_def split: sum.split)

lemma round_body_useless_list_mono:
  "useless_list s \<subseteq> useless_list (flow_session (round_body ini r s))"
proof -
  let ?s1 = "s\<lparr>round_count := round_count s + 1\<rparr>"
  let ?elems = "elem_list_of ?s1 (node_elems r)"
  have u: "useless_list (stage_session (act_stage ini r ?elems ?s1)) = useless_list s"
    by (simp add: act_stage_frame)
  show ?thesis
  proof (cases "act_stage ini r ?elems ?s1")
    case (Inl fl)
    with u show ?thesis by (simp add: round_body_def Let_def)
  next
    case (Inr t)
    obtain s2 a area res where t: "t = (s2, a, area, res)" by (cases t) auto
    with u Inr have "useless_list s2 = useless_list s" by simp
    with reflect_stage_useless_list_mono [of s2 r ?elems a area res] Inr t show ?thesis
      by (simp add: round_body_def Let_def)
  qed
qed

lemma loop_head_useless_list_mono:
  assumes "loop_head cfg ini env n s = Some s'"
  shows "useless_list s \<subseteq> useless_list s'"
proof (rule loop_head_invariant [where P = "\<lambda>t. useless_list s \<subseteq> useless_list t", OF _ _ _ assms])
  show "useless_list s \<subseteq> useless_list s" by simp
next
  fix t :: session and r
  assume "useless_list s \<subseteq> useless_list t"
  with round_body_useless_list_mono [of t ini r]
  show "useless_list s \<subseteq> useless_list (flow_session (round_body ini r t))" by blast
next
  fix t :: session and b
  assume "useless_list s \<subseteq> useless_list t"
  then show "useless_list s \<subseteq> useless_list (t\<lparr>stop_event := b\<rparr>)" by simp
qed

lemma reflect_marks:
  assumes "reflect_status r" and "py_getitem elems (area - 1) = Inr el"
    and "reflect_rsp r = PStr d # rest"
    and "d = ''INEFFECTIVE'' \<or> d = ''BACK'' \<or> d = ''CONTINUE''"
  shows "uid el \<in> useless_list (flow_session (reflect r elems a area s))"
  using assms
  by (auto simp add: reflect_def Let_def py_getitem_first document_useless_list)

lemma reflect_success:
  assumes "reflect_rsp r = PStr ''SUCCESS'' # rest"
  shows "useless_list (flow_session (reflect r elems a area s)) = useless_list s"
  using assms
  by (simp add: reflect_def Let_def py_getitem_first document_useless_list split: sum.split)


text \<open>
  C3. In a round in which a \<open>tap\<close> or \<open>long_press\<close> on the element \<open>el\<close> is carried
  out and the reflection request succeeds: with the verdict \<open>INEFFECTIVE\<close>, \<open>BACK\<close> or
  \<open>CONTINUE\<close> the element's \<open>uid\<close> is in \<open>useless_list\<close> when the round is over, it
  is still there at the head of every later round of the session, and the element list
  of no later round contains it; with the verdict \<open>SUCCESS\<close> the round leaves
  \<open>useless_list\<close> as it was. No round and no sequence of rounds removes anything from
  \<open>useless_list\<close>.
\<close>

theorem verdict_and_useless_list:
  assumes "explore_status r" and "explore_rsp r = [PStr a, PInt i, la]"
    and "a = ''tap'' \<or> a = ''long_press''"
    and "py_getitem (elem_list_of s (node_elems r)) (i - 1) = Inr el"
    and "gesture_ret r \<noteq> ''ERROR''"
    and "reflect_status r" and "reflect_rsp r = PStr d # rest"
    and "env (round_count s + 1) = r"
  shows "(d = ''INEFFECTIVE'' \<or> d = ''BACK'' \<or> d = ''CONTINUE'' \<longrightarrow>
            uid el \<in> useless_list (flow_session (round_body ini r s))
            \<and> (\<forall>n s'. loop_head cfg ini env (Suc n) s = Some s' \<longrightarrow>
                  uid el \<in> useless_list s'
                  \<and> (\<forall>elems. uid el \<notin> uid ` set (elem_list_of s' elems))))
         \<and> (d = ''SUCCESS'' \<longrightarrow>
              useless_list (flow_session (round_body ini r s)) = useless_list s)
         \<and> useless_list s \<subseteq> useless_list (flow_session (round_body ini r s))
         \<and> (\<forall>n s'. loop_head cfg ini env n s = Some s' \<longrightarrow> useless_list s \<subseteq> useless_list s')"
proof -
  let ?elems = "elem_list_of s (node_elems r)"
  let ?s2 = "s\<lparr>round_count := round_count s + 1,
         calls := calls s @ [Explore_model,
                 (if a = ''tap'' then Tap else Long_press)
                   (fst (center ini el)) (snd (center ini el))],
         last_act := la\<rparr>"
  have rb: "round_body ini r s = reflect r ?elems a i ?s2"
    using assms(1-5) by (rule round_body_gesture)
  have marked: "uid el \<in> useless_list (flow_session (round_body ini r s))"
    if "d = ''INEFFECTIVE'' \<or> d = ''BACK'' \<or> d = ''CONTINUE''"
    unfolding rb using assms(6,4,7) that by (rule reflect_marks)
  have later: "uid el \<in> useless_list s' \<and> (\<forall>elems. uid el \<notin> uid ` set (elem_list_of s' elems))"
    if d: "d = ''INEFFECTIVE'' \<or> d = ''BACK'' \<or> d = ''CONTINUE''"
      and head: "loop_head cfg ini env (Suc n) s = Some s'" for n s'
  proof -
    from head obtain s1 where step: "loop_step cfg ini env s = Inr s1"
      and rest: "loop_head cfg ini env n s1 = Some s'"
      by (auto split: sum.splits)
    from loop_step_Inr_session [OF step] assms(8) obtain s0 b
      where "round_body ini r s = Continue s0" "s1 = s0\<lparr>stop_event := b\<rparr>" by auto
    with marked [OF d] have "uid el \<in> useless_list s1" by simp
    with loop_head_useless_list_mono [OF rest] have in': "uid el \<in> useless_list s'" by blast
    then have "\<forall>elems. uid el \<notin> uid ` set (elem_list_of s' elems)"
      using elem_list_of_excludes by fastforce
    with in' show ?thesis by simp
  qed
  have success: "useless_list (flow_session (round_body ini r s)) = useless_list s"
    if "d = ''SUCCESS''"
    unfolding rb using assms(7) that by (simp add: reflect_success)
  show ?thesis
    using marked later success round_body_useless_list_mono [of s ini r]
      loop_head_useless_list_mono [of cfg ini env _ s]
    by blast
qed

theorem verdict_and_useless_list_witness:
  "uid (demo_elems ! 1) \<in> useless_list (flow_session (round_body demo_ini
       (demo_round [PStr ''tap'', PInt 2, PStr ''tapped''] [PStr ''INEFFECTIVE'', PStr ''think''])
       (init_session Map.empty False)))
   \<and> (\<exists>s'. loop_head demo_cfg demo_ini
         (\<lambda>k. demo_round [PStr ''tap'', PInt 2, PStr ''tapped''] [PStr ''INEFFECTIVE'', PStr ''think''])
         (Suc 0) (init_session Map.empty False) = Some s'
        \<and> useless_list s' = {''b''}
        \<and> map uid (elem_list_of s' demo_elems) = [''a'', ''c''])"
  using verdict_and_useless_list
    [of "demo_round [PStr ''tap'', PInt 2, PStr ''tapped''] [PStr ''INEFFECTIVE'', PStr ''think'']"
        "''tap''" 2 "PStr ''tapped''" "init_session Map.empty False" "demo_elems ! 1"
        "''INEFFECTIVE''" "[PStr ''think'']"
        "\<lambda>k. demo_round [PStr ''tap'', PInt 2, PStr ''tapped''] [PStr ''INEFFECTIVE'', PStr ''think'']"
        demo_ini demo_cfg]
  by (simp add: loop_defs demo_defs)

subsection \<open>A \<open>swipe\<close> decision\<close>

text \<open>Whatever list the parser returns for a \<open>swipe\<close>, line 320 needs it to have two
  items after the summary is cut off and line 358 needs three: one of the two
  unpackings raises.\<close>

lemma round_body_swipe:
  assumes "explore_status r" and "explore_rsp r = PStr ''swipe'' # rest"
  shows "\<exists>e. round_body ini r s =
           Raise e (s\<lparr>round_count := round_count s + 1, calls := calls s @ [Explore_model],
                      last_act := last (explore_rsp r)\<rparr>)"
proof -
  from act_stage_swipe [OF assms, of ini "elem_list_of s (node_elems r)"
      "s\<lparr>round_count := round_count s + 1\<rparr>"]
  obtain e where "act_stage ini r (elem_list_of s (node_elems r)) (s\<lparr>round_count := round_count s + 1\<rparr>)
      = Inl (Raise e (s\<lparr>round_count := round_count s + 1, calls := calls s @ [Explore_model],
                      last_act := last (explore_rsp r)\<rparr>))"
    by auto
  from round_body_Inl [OF this] show ?thesis by blast
qed

text \<open>
  C9. The point handed to the driver is the centre of the element's box plus the canvas
  offset: for \<open>tap\<close> and \<open>long_press\<close> this is what the code does (lemma
  \<open>round_body_gesture\<close>), and the box \<open>((10, 10), (30, 30))\<close> at offset
  \<open>(100, 200)\<close> gives \<open>(120, 220)\<close>. For \<open>swipe\<close> the code never gets as far as the
  driver: in the sample session the decision \<open>swipe(2, "up", "medium")\<close> on that element
  ends the session with status \<open>error\<close> after the exploration request alone.
\<close>

theorem swipe_point_never_reaches_driver:
  "center demo_ini (demo_elems ! 1) = (20 + 100, 20 + 200)
   \<and> calls (flow_session (round_body demo_ini
        (demo_round [PStr ''tap'', PInt 2, PStr ''tapped'']
           [PStr ''SUCCESS'', PStr ''think'', PStr ''opens settings''])
        (init_session Map.empty False)))
      = [Explore_model, Tap 120 220, Reflect_model, Write_doc ''b'']
   \<and> calls (end_session (run_loop demo_cfg demo_ini
        (\<lambda>k. demo_round [PStr ''swipe'', PInt 2, PStr ''up'', PStr ''medium'', PStr ''swiped'']
           [PStr ''SUCCESS'', PStr ''think'', PStr ''scrolls the list''])
        (init_session Map.empty False)))
      = [Explore_model]
   \<and> run_exploration demo_cfg demo_ini
        (\<lambda>k. demo_round [PStr ''swipe'', PInt 2, PStr ''up'', PStr ''medium'', PStr ''swiped'']
           [PStr ''SUCCESS'', PStr ''think'', PStr ''scrolls the list''])
        Map.empty False
      = [(''status'', RStr ''error''),
         (''message'', RStr ''Error during exploration: too many values to unpack (expected 2)'')]"
  by (simp add: run_loop.simps loop_defs demo_defs)

text \<open>
  C10. The index 0 is not out of range: \<open>elem_list[0 - 1]\<close> is the last element. A
  \<open>tap(0)\<close> on the sample screen taps the centre of the third element \<open>c\<close> and the
  reflection is about \<open>c\<close>. A \<open>swipe(0, ...)\<close> is not carried out on any element: as for
  every \<open>swipe\<close>, the session ends with status \<open>error\<close> before the driver is called.
\<close>

theorem swipe_index_zero_is_not_executed:
  "py_getitem demo_elems (0 - 1) = Inr (demo_elems ! 2)
   \<and> calls (flow_session (round_body demo_ini
        (demo_round [PStr ''tap'', PInt 0, PStr ''tapped'']
           [PStr ''INEFFECTIVE'', PStr ''think''])
        (init_session Map.empty False)))
      = [Explore_model, Tap 150 260, Reflect_model]
   \<and> useless_list (flow_session (round_body demo_ini
        (demo_round [PStr ''tap'', PInt 0, PStr ''tapped'']
           [PStr ''INEFFECTIVE'', PStr ''think''])
        (init_session Map.empty False)))
      = {''c''}
   \<and> round_body demo_ini
        (demo_round [PStr ''swipe'', PInt 0, PStr ''up'', PStr ''medium'', PStr ''swiped''] [])
        (init_session Map.empty False)
      = Raise (ValueError ''too many values to unpack (expected 2)'')
          ((init_session Map.empty False)
             \<lparr>round_count := 1, calls := [Explore_model], last_act := PStr ''swiped''\<rparr>)
   \<and> run_exploration demo_cfg demo_ini
        (\<lambda>k. demo_round [PStr ''swipe'', PInt 0, PStr ''up'', PStr ''medium'', PStr ''swiped''] [])
        Map.empty False
      = [(''status'', RStr ''error''),
         (''message'', RStr ''Error during exploration: too many values to unpack (expected 2)'')]"
  by (simp add: run_loop.simps loop_defs demo_defs)

text \<open>For \<open>tap\<close> and \<open>long_press\<close> the index 0 reaches the last element of any
  non-empty list.\<close>

lemma index_zero_is_last:
  "elems \<noteq> [] \<Longrightarrow> py_getitem elems (0 - 1) = Inr (last elems)"
  by (simp add: py_getitem_last)

subsection \<open>A stop request\<close>

text \<open>The body of a round does not read the flag: it is the same computation whether or
  not a stop is requested while it runs.\<close>

lemma gesture_ignores_stop_request:
  "gesture ini (r\<lparr>stop_request := b\<rparr>) a area res el s = gesture ini r a area res el s"
  by (simp add: gesture_def Let_def cong: if_cong sum.case_cong prod.case_cong)

lemma act_stage_ignores_stop_request:
  "act_stage ini (r\<lparr>stop_request := b\<rparr>) elems s = act_stage ini r elems s"
  by (simp add: act_stage_def gesture_ignores_stop_request Let_def
      cong: if_cong sum.case_cong pyval.case_cong prod.case_cong)

lemma document_ignores_stop_request:
  "document (r\<lparr>stop_request := b\<rparr>) u a s = document r u a s"
  by (simp add: document_def cong: if_cong sum.case_cong option.case_cong)

lemma reflect_ignores_stop_request:
  "reflect (r\<lparr>stop_request := b\<rparr>) elems a area s = reflect r elems a area s"
  by (simp add: reflect_def document_ignores_stop_request Let_def
      cong: if_cong sum.case_cong)

lemma reflect_stage_ignores_stop_request:
  "reflect_stage (r\<lparr>stop_request := b\<rparr>) elems a area res s = reflect_stage r elems a area res s"
  by (simp add: reflect_stage_def reflect_ignores_stop_request cong: if_cong sum.case_cong)

lemma round_body_ignores_stop_request:
  "round_body ini (r\<lparr>stop_request := b\<rparr>) s = round_body ini r s"
  by (simp add: round_body_def act_stage_ignores_stop_request
      reflect_stage_ignores_stop_request Let_def cong: sum.case_cong prod.case_cong)

text \<open>
  C7. A stop requested while round \<open>k\<close> runs (the loop entered the round with the flag
  clear) does not cut the round short: the loop ends exactly as the body of round \<open>k\<close>
  ends it, or, when the body runs to its end, at the head of the next pass, where the
  flag is read. The body is the same computation as without the request. The round
  counter is \<open>k\<close> at the end, and the result reports \<open>k\<close> rounds unless the body of
  round \<open>k\<close> itself raised an exception, in which case the result is the one of the
  \<open>except\<close> clause.
\<close>

theorem stop_request_waits_for_round:
  assumes "round_count s < MAX_ROUNDS cfg" and "\<not> stop_event s"
    and "stop_request (env (round_count s + 1))"
  shows "run_loop cfg ini env s =
           (case round_body ini (env (round_count s + 1)) s of
              Continue s' \<Rightarrow> Finished (s'\<lparr>stop_event := True\<rparr>)
            | Break s' \<Rightarrow> Finished s'
            | Raise e s' \<Rightarrow> Failed e s')
         \<and> round_body ini ((env (round_count s + 1))\<lparr>stop_request := False\<rparr>) s
             = round_body ini (env (round_count s + 1)) s
         \<and> round_count (end_session (run_loop cfg ini env s)) = round_count s + 1
         \<and> ((\<exists>e s'. round_body ini (env (round_count s + 1)) s = Raise e s')
              \<or> map_of (result_of (run_loop cfg ini env s)) ''rounds''
                  = Some (RInt (round_count s + 1)))"
proof -
  let ?fl = "round_body ini (env (round_count s + 1)) s"
  have rc: "round_count (flow_session ?fl) = round_count s + 1"
    by (rule round_body_round_count)
  have run: "run_loop cfg ini env s =
           (case ?fl of
              Continue s' \<Rightarrow> Finished (s'\<lparr>stop_event := True\<rparr>)
            | Break s' \<Rightarrow> Finished s'
            | Raise e s' \<Rightarrow> Failed e s')"
  proof (cases ?fl)
    case (Continue s')
    with assms have step: "loop_step cfg ini env s = Inr (s'\<lparr>stop_event := True\<rparr>)"
      by (simp add: loop_step_body)
    have "loop_step cfg ini env (s'\<lparr>stop_event := True\<rparr>) = Inl (Finished (s'\<lparr>stop_event := True\<rparr>))"
      by (simp add: loop_step_def)
    then have "run_loop cfg ini env (s'\<lparr>stop_event := True\<rparr>) = Finished (s'\<lparr>stop_event := True\<rparr>)"
      by (rule run_loop_Inl)
    with run_loop_Inr [OF step] Continue show ?thesis by simp
  next
    case (Break s')
    with assms(1,2) run_loop_Break [of s cfg ini env s'] show ?thesis by simp
  next
    case (Raise e s')
    with assms(1,2) run_loop_Raise [of s cfg ini env e s'] show ?thesis by simp
  qed
  with rc show ?thesis
    by (cases ?fl) (simp_all add: round_body_ignores_stop_request)
qed

theorem stop_request_waits_for_round_witness:
  "run_exploration demo_cfg demo_ini
     (\<lambda>k. (demo_round [PStr ''tap'', PInt 2, PStr ''tapped'']
              [PStr ''SUCCESS'', PStr ''think'', PStr ''opens settings''])\<lparr>stop_request := (k = 1)\<rparr>)
     Map.empty False
   = [(''status'', RStr ''incomplete''), (''task_complete'', RBool False),
      (''rounds'', RInt 1), (''docs_generated'', RInt 1)]
   \<and> calls (end_session (run_loop demo_cfg demo_ini
     (\<lambda>k. (demo_round [PStr ''tap'', PInt 2, PStr ''tapped'']
              [PStr ''SUCCESS'', PStr ''think'', PStr ''opens settings''])\<lparr>stop_request := (k = 1)\<rparr>)
     (init_session Map.empty False)))
   = [Explore_model, Tap 120 220, Reflect_model, Write_doc ''b'']"
  using stop_request_waits_for_round [of "init_session Map.empty False" demo_cfg
     "\<lambda>k. (demo_round [PStr ''tap'', PInt 2, PStr ''tapped'']
              [PStr ''SUCCESS'', PStr ''think'', PStr ''opens settings''])\<lparr>stop_request := (k = 1)\<rparr>"
     demo_ini]
  by (simp add: loop_defs demo_defs)

subsection \<open>The fatal paths and the result\<close>







lemma result_of_Finished:
  "\<not> task_complete s \<Longrightarrow>
   result_of (Finished s) =
     [(''status'', RStr ''incomplete''), (''task_complete'', RBool False),
      (''rounds'', RInt (round_count s)), (''docs_generated'', RInt (doc_count s))]"
  by simp





subsection \<open>The round counter\<close>

lemma loop_step_Inl_cases:
  "loop_step cfg ini env s = Inl fin \<Longrightarrow>
   end_session fin = s
   \<or> (round_count s < MAX_ROUNDS cfg \<and> \<not> stop_event s
       \<and> end_session fin = flow_session (round_body ini (env (round_count s + 1)) s))"
  by (auto simp: loop_step_def split: if_splits flow.splits)

lemma run_loop_invariant_at_head:
  assumes "P s"
    and "\<And>s. P s \<Longrightarrow> round_count s < MAX_ROUNDS cfg \<Longrightarrow> \<not> stop_event s \<Longrightarrow>
           P (flow_session (round_body ini (env (round_count s + 1)) s))"
    and "\<And>s b. P s \<Longrightarrow> P (s\<lparr>stop_event := b\<rparr>)"
  shows "P (end_session (run_loop cfg ini env s))"
  using assms
proof (induction cfg ini env s rule: run_loop.induct)
  case (1 cfg ini env s)
  note body = "1.prems"(2) and flag = "1.prems"(3)
  let ?fl = "round_body ini (env (round_count s + 1)) s"
  show ?case
  proof (cases "loop_step cfg ini env s")
    case (Inl fin)
    from loop_step_Inl_cases [OF Inl] "1.prems"(1) body [OF "1.prems"(1)]
    have "P (end_session fin)" by auto
    with Inl show ?thesis by (simp add: run_loop_Inl)
  next
    case (Inr s')
    from loop_step_Inr_session [OF Inr] obtain s1 b
      where s1: "?fl = Continue s1" "s' = s1\<lparr>stop_event := b\<rparr>" by blast
    from Inr have "round_count s < MAX_ROUNDS cfg" "\<not> stop_event s"
      by (auto simp: loop_step_def split: if_splits)
    from body [OF "1.prems"(1) this] s1 have "P s'" using flag by simp
    from "1.IH" [OF Inr this body flag] Inr show ?thesis by (simp add: run_loop_Inr)
  qed
qed

lemma loop_head_round_count:
  "loop_head cfg ini env n s = Some s' \<Longrightarrow>
   round_count s' = round_count s + int n \<and> (0 < n \<longrightarrow> round_count s' \<le> MAX_ROUNDS cfg)"
proof (induction n arbitrary: s)
  case 0
  then show ?case by simp
next
  case (Suc n)
  from Suc.prems obtain s1 where step: "loop_step cfg ini env s = Inr s1"
    and rest: "loop_head cfg ini env n s1 = Some s'"
    by (auto split: sum.splits)
  from loop_step_Inr [OF step] have s1: "round_count s < MAX_ROUNDS cfg"
    "round_count s1 = round_count s + 1" by simp_all
  from Suc.IH [OF rest] s1 show ?case by (cases n) auto
qed

lemma run_loop_round_count_le:
  assumes "round_count s \<le> MAX_ROUNDS cfg"
  shows "round_count (end_session (run_loop cfg ini env s)) \<le> MAX_ROUNDS cfg"
proof (rule run_loop_invariant_at_head [where P = "\<lambda>t. round_count t \<le> MAX_ROUNDS cfg"])
  show "round_count s \<le> MAX_ROUNDS cfg" by (rule assms)
next
  fix t :: session
  assume "round_count t < MAX_ROUNDS cfg"
  then show "round_count (flow_session (round_body ini (env (round_count t + 1)) t)) \<le> MAX_ROUNDS cfg"
    by (simp add: round_body_round_count)
next
  fix t :: session and b
  assume "round_count t \<le> MAX_ROUNDS cfg"
  then show "round_count (t\<lparr>stop_event := b\<rparr>) \<le> MAX_ROUNDS cfg" by simp
qed

subsection \<open>\<open>task_complete\<close> is set by \<open>FINISH\<close> alone\<close>

lemma act_stage_task_complete:
  "task_complete (stage_session (act_stage ini r elems s)) \<longrightarrow>
   task_complete s \<or> (explore_status r \<and> py_getitem (explore_rsp r) 0 = Inr (PStr ''FINISH''))"
  by (simp add: act_stage_def gesture_def Let_def split: sum.split prod.split pyval.split)

lemma document_task_complete:
  "task_complete (flow_session (document r u a s)) = task_complete s"
  by (simp add: document_def save_doc_def split: sum.split option.split)

lemma reflect_task_complete:
  "task_complete (flow_session (reflect r elems a area s)) = task_complete s"
  by (simp add: reflect_def Let_def document_task_complete split: sum.split)

lemma reflect_stage_task_complete:
  "task_complete (flow_session (reflect_stage r elems a area res s)) = task_complete s"
  by (simp add: reflect_stage_def reflect_task_complete split: sum.split)

lemma round_body_task_complete:
  assumes "task_complete (flow_session (round_body ini r s))"
  shows "task_complete s \<or> (explore_status r \<and> py_getitem (explore_rsp r) 0 = Inr (PStr ''FINISH''))"
proof -
  let ?s1 = "s\<lparr>round_count := round_count s + 1\<rparr>"
  let ?elems = "elem_list_of ?s1 (node_elems r)"
  have "task_complete (stage_session (act_stage ini r ?elems ?s1))"
  proof (cases "act_stage ini r ?elems ?s1")
    case (Inl fl)
    with assms show ?thesis by (simp add: round_body_def Let_def)
  next
    case (Inr t)
    obtain s2 a area res where t: "t = (s2, a, area, res)" by (cases t) auto
    with assms Inr show ?thesis
      by (simp add: round_body_def Let_def reflect_stage_task_complete)
  qed
  with act_stage_task_complete [of ini r ?elems ?s1] show ?thesis by simp
qed

lemma run_loop_not_complete:
  assumes "\<not> task_complete s"
    and "\<And>k. \<not> (explore_status (env k) \<and> py_getitem (explore_rsp (env k)) 0 = Inr (PStr ''FINISH''))"
  shows "\<not> task_complete (end_session (run_loop cfg ini env s))"
proof (rule run_loop_invariant_at_head [where P = "\<lambda>t. \<not> task_complete t"])
  show "\<not> task_complete s" by (rule assms(1))
next
  fix t :: session
  assume "\<not> task_complete t"
  with round_body_task_complete [of ini "env (round_count t + 1)" t] assms(2)
  show "\<not> task_complete (flow_session (round_body ini (env (round_count t + 1)) t))" by blast
next
  fix t :: session and b
  assume "\<not> task_complete t"
  then show "\<not> task_complete (t\<lparr>stop_event := b\<rparr>)" by simp
qed

text \<open>
  C8. With a maximum that is not negative: \<open>round_count\<close> starts at 0; every round adds
  exactly 1 to it, whatever happens in the round; at the head of the \<open>n\<close>-th further
  pass it is \<open>n\<close> and at most \<open>MAX_ROUNDS\<close>; it is at most \<open>MAX_ROUNDS\<close> when the
  loop is over. When no round's decision is \<open>FINISH\<close> and the loop ends without an
  exception, in particular when it ends because the maximum is reached, the result has
  status \<open>incomplete\<close> and \<open>task_complete\<close> false.
\<close>

theorem round_count_is_bounded:
  assumes "0 \<le> MAX_ROUNDS cfg"
  shows "round_count (init_session docs0 stop0) = 0
       \<and> (\<forall>r s. round_count (flow_session (round_body ini r s)) = round_count s + 1)
       \<and> (\<forall>n s'. loop_head cfg ini env n (init_session docs0 stop0) = Some s' \<longrightarrow>
              round_count s' = int n \<and> round_count s' \<le> MAX_ROUNDS cfg)
       \<and> round_count (end_session (run_loop cfg ini env (init_session docs0 stop0)))
            \<le> MAX_ROUNDS cfg
       \<and> ((\<forall>k. \<not> (explore_status (env k)
                  \<and> py_getitem (explore_rsp (env k)) 0 = Inr (PStr ''FINISH''))) \<longrightarrow>
           (\<forall>s'. run_loop cfg ini env (init_session docs0 stop0) = Finished s' \<longrightarrow>
              run_exploration cfg ini env docs0 stop0 =
                [(''status'', RStr ''incomplete''), (''task_complete'', RBool False),
                 (''rounds'', RInt (round_count s')),
                 (''docs_generated'', RInt (doc_count s'))]))"
proof -
  let ?s0 = "init_session docs0 stop0"
  have zero: "round_count ?s0 = 0" by (simp add: init_session_def)
  have heads: "round_count s' = int n \<and> round_count s' \<le> MAX_ROUNDS cfg"
    if "loop_head cfg ini env n ?s0 = Some s'" for n s'
    using loop_head_round_count [OF that] zero assms by (cases n) auto
  have final: "round_count (end_session (run_loop cfg ini env ?s0)) \<le> MAX_ROUNDS cfg"
    using assms zero by (intro run_loop_round_count_le) simp
  have incomplete: "run_exploration cfg ini env docs0 stop0 =
                [(''status'', RStr ''incomplete''), (''task_complete'', RBool False),
                 (''rounds'', RInt (round_count s')),
                 (''docs_generated'', RInt (doc_count s'))]"
    if nofin: "\<forall>k. \<not> (explore_status (env k)
                  \<and> py_getitem (explore_rsp (env k)) 0 = Inr (PStr ''FINISH''))"
      and fin: "run_loop cfg ini env ?s0 = Finished s'" for s'
  proof -
    have "\<not> task_complete ?s0" by (simp add: init_session_def)
    from run_loop_not_complete [OF this, of env cfg ini] nofin fin
    have "\<not> task_complete s'" by simp
    with fin show ?thesis by (simp add: run_exploration_def)
  qed
  from zero heads final incomplete round_body_round_count show ?thesis by blast
qed

theorem round_count_is_bounded_witness:
  "0 \<le> MAX_ROUNDS demo_cfg
   \<and> round_count (end_session (run_loop demo_cfg demo_ini
        (\<lambda>k. demo_round [PStr ''tap'', PInt 2, PStr ''tapped'']
           [PStr ''SUCCESS'', PStr ''think'', PStr ''opens settings''])
        (init_session Map.empty False))) = MAX_ROUNDS demo_cfg
   \<and> run_exploration demo_cfg demo_ini
        (\<lambda>k. demo_round [PStr ''tap'', PInt 2, PStr ''tapped'']
           [PStr ''SUCCESS'', PStr ''think'', PStr ''opens settings''])
        Map.empty False
      = [(''status'', RStr ''incomplete''), (''task_complete'', RBool False),
         (''rounds'', RInt 3), (''docs_generated'', RInt 1)]"
  using round_count_is_bounded [of demo_cfg Map.empty False demo_ini
      "\<lambda>k. demo_round [PStr ''tap'', PInt 2, PStr ''tapped'']
           [PStr ''SUCCESS'', PStr ''think'', PStr ''opens settings'']"]
  by (simp add: run_loop.simps loop_defs demo_defs)

end
